theory Spec2Isabelle
  imports Main
begin

section \<open>The destination picker of the travel-agent sample\<close>

text \<open>
  The only first-party logic of \<^verbatim>\<open>step5A_chat_completion_agent_plugin_with_kernel.py\<close>
  is the class \<^verbatim>\<open>DestinationsPlugin\<close>:
  \<^verbatim>\<open>
  class DestinationsPlugin:
      def __init__(self):
          self.destinations = ["Barcelona, Spain", ..., "Bali, Indonesia"]
          self.last_destination = None

      def get_random_destination(self):
          available_destinations = self.destinations.copy()
          if self.last_destination and len(available_destinations) > 1:
              available_destinations.remove(self.last_destination)
          destination = random.choice(available_destinations)
          self.last_destination = destination
          return destination
  \<close>
  The object is a record, the two exceptions that the body can raise are values of
  \<open>py_error\<close>, and the call returns the destination together with the updated object.
\<close>

subsection \<open>Data\<close>

datatype py_error = ValueError | IndexError

record DestinationsPlugin =
  destinations :: "string list"
  last_destination :: "string option"

subsection \<open>Python primitives used by the method\<close>

text \<open>
  \<^verbatim>\<open>list.remove(x)\<close> deletes the first element equal to \<open>x\<close> and raises
  \<^verbatim>\<open>ValueError\<close> when there is none.
\<close>

fun list_remove :: "'a list \<Rightarrow> 'a \<Rightarrow> py_error + 'a list" where
  "list_remove [] x = Inl ValueError"
| "list_remove (y # ys) x =
     (if y = x then Inr ys
      else (case list_remove ys x of Inl e \<Rightarrow> Inl e | Inr zs \<Rightarrow> Inr (y # zs)))"

text \<open>
  \<^verbatim>\<open>random.choice(seq)\<close> raises \<^verbatim>\<open>IndexError\<close> on an empty sequence and
  otherwise returns \<^verbatim>\<open>seq[randbelow(len(seq))]\<close>. The generator is outside the
  plugin: its output for the call is the argument \<open>r\<close>, reduced below the length, so
  that every position of the sequence is the result for some \<open>r\<close> and nothing else is.
\<close>

definition random_choice :: "nat \<Rightarrow> 'a list \<Rightarrow> py_error + 'a" where
  "random_choice r seq =
     (if seq = [] then Inl IndexError else Inr (seq ! (r mod length seq)))"

text \<open>
  Truth value of \<^verbatim>\<open>self.last_destination\<close> in a condition: \<^verbatim>\<open>None\<close> and the
  empty string are false, every other string is true.
\<close>

definition truthy :: "string option \<Rightarrow> bool" where
  "truthy v = (case v of None \<Rightarrow> False | Some s \<Rightarrow> s \<noteq> [])"

subsection \<open>The class\<close>

definition DestinationsPlugin_init :: DestinationsPlugin where
  "DestinationsPlugin_init =
     \<lparr> destinations =
         [''Barcelona, Spain'', ''Paris, France'', ''Berlin, Germany'', ''Tokyo, Japan'',
          ''Sydney, Australia'', ''New York, USA'', ''Cairo, Egypt'',
          ''Cape Town, South Africa'', ''Rio de Janeiro, Brazil'', ''Bali, Indonesia''],
       last_destination = None \<rparr>"

text \<open>
  The first three lines of the method body: the list handed to \<^verbatim>\<open>random.choice\<close>.
\<close>

definition available_destinations :: "DestinationsPlugin \<Rightarrow> py_error + string list" where
  "available_destinations self =
     (if truthy (last_destination self) \<and> 1 < length (destinations self)
      then list_remove (destinations self) (the (last_destination self))
      else Inr (destinations self))"

definition get_random_destination ::
    "DestinationsPlugin \<Rightarrow> nat \<Rightarrow> py_error + (string \<times> DestinationsPlugin)" where
  "get_random_destination self r =
     (case available_destinations self of
        Inl e \<Rightarrow> Inl e
      | Inr av \<Rightarrow>
          (case random_choice r av of
             Inl e \<Rightarrow> Inl e
           | Inr destination \<Rightarrow>
               Inr (destination, self\<lparr>last_destination := Some destination\<rparr>)))"

text \<open>
  A sequence of calls on one object, one generator output per call; the first exception
  ends the sequence, as it would end the caller.
\<close>

fun run_calls ::
    "DestinationsPlugin \<Rightarrow> nat list \<Rightarrow> py_error + (string list \<times> DestinationsPlugin)" where
  "run_calls self [] = Inr ([], self)"
| "run_calls self (r # rs) =
     (case get_random_destination self r of
        Inl e \<Rightarrow> Inl e
      | Inr (d, self') \<Rightarrow>
          (case run_calls self' rs of
             Inl e \<Rightarrow> Inl e
           | Inr (ds, self'') \<Rightarrow> Inr (d # ds, self'')))"

subsection \<open>The object among the interpreter's lists and generator\<close>

text \<open>
  \<^verbatim>\<open>self.destinations\<close> is a reference to a list object, \<^verbatim>\<open>remove\<close> mutates
  the list it is called on, and \<^verbatim>\<open>random.choice\<close> draws from the generator of the
  module \<^verbatim>\<open>random\<close>, which every caller shares. To see what a call does beyond
  its result, the method is also modelled on the state around the object:
  \<^item> the lists live in a heap: a reference is a position in it, \<^verbatim>\<open>copy()\<close>
    allocates a new list at the end, \<^verbatim>\<open>remove\<close> overwrites the list at its
    reference (and changes nothing when it raises);
  \<^item> the generator is the sequence of its outputs and a position in it: a draw reads
    the output at the position and moves the position on; \<^verbatim>\<open>random.choice\<close>
    raises on an empty sequence without drawing.
  Strings and \<^verbatim>\<open>None\<close> are immutable and stay values. A call returns its result, or
  the exception, together with the state and the object it leaves behind.
\<close>

type_synonym ref = nat

type_synonym heap = "string list list"

record generator =
  outputs :: "nat \<Rightarrow> nat"
  position :: nat

record py_state =
  list_objects :: heap
  rng :: generator

record DestinationsPlugin_obj =
  destinations_ref :: ref
  last_destination_attr :: "string option"

definition list_copy :: "heap \<Rightarrow> ref \<Rightarrow> heap \<times> ref" where
  "list_copy h a = (h @ [h ! a], length h)"

definition list_remove_inplace :: "heap \<Rightarrow> ref \<Rightarrow> string \<Rightarrow> py_error + heap" where
  "list_remove_inplace h a x =
     (case list_remove (h ! a) x of Inl e \<Rightarrow> Inl e | Inr ys \<Rightarrow> Inr (h[a := ys]))"

definition random_choice_rng :: "generator \<Rightarrow> 'a list \<Rightarrow> (py_error + 'a) \<times> generator" where
  "random_choice_rng g seq =
     (if seq = [] then (Inl IndexError, g)
      else (random_choice (outputs g (position g)) seq, g\<lparr>position := Suc (position g)\<rparr>))"

definition DestinationsPlugin_init_heap :: "py_state \<Rightarrow> py_state \<times> DestinationsPlugin_obj" where
  "DestinationsPlugin_init_heap w =
     (w\<lparr>list_objects := list_objects w @ [destinations DestinationsPlugin_init]\<rparr>,
      \<lparr> destinations_ref = length (list_objects w), last_destination_attr = None \<rparr>)"

definition get_random_destination_heap ::
    "py_state \<Rightarrow> DestinationsPlugin_obj
       \<Rightarrow> (py_error + string) \<times> py_state \<times> DestinationsPlugin_obj" where
  "get_random_destination_heap w self =
     (case list_copy (list_objects w) (destinations_ref self) of
        (h1, available) \<Rightarrow>
          (case (if truthy (last_destination_attr self) \<and> 1 < length (h1 ! available)
                 then list_remove_inplace h1 available (the (last_destination_attr self))
                 else Inr h1) of
             Inl e \<Rightarrow> (Inl e, w\<lparr>list_objects := h1\<rparr>, self)
           | Inr h2 \<Rightarrow>
               (case random_choice_rng (rng w) (h2 ! available) of
                  (Inl e, g) \<Rightarrow> (Inl e, \<lparr>list_objects = h2, rng = g\<rparr>, self)
                | (Inr destination, g) \<Rightarrow>
                    (Inr destination, \<lparr>list_objects = h2, rng = g\<rparr>,
                     self\<lparr>last_destination_attr := Some destination\<rparr>))))"

text \<open>The value of an object: the list its reference points to, and its attribute.\<close>

definition plugin_of :: "heap \<Rightarrow> DestinationsPlugin_obj \<Rightarrow> DestinationsPlugin" where
  "plugin_of h self =
     \<lparr> destinations = h ! destinations_ref self,
       last_destination = last_destination_attr self \<rparr>"

subsection \<open>Notions of the specification\<close>

text \<open>
  The state invariant: the remembered destination, when there is one, is an entry of the
  catalog.
\<close>

definition last_in_catalog :: "DestinationsPlugin \<Rightarrow> bool" where
  "last_in_catalog self =
     (case last_destination self of
        None \<Rightarrow> True
      | Some l \<Rightarrow> l \<in> set (destinations self))"

text \<open>
  The eligible set in the specification's words: the catalog minus the last destination
  if the last destination is set and the catalog has more than one entry, the full
  catalog otherwise.
\<close>

definition eligible_set_spec :: "DestinationsPlugin \<Rightarrow> string set" where
  "eligible_set_spec self =
     (if last_destination self \<noteq> None \<and> 1 < length (destinations self)
      then set (destinations self) - {the (last_destination self)}
      else set (destinations self))"

section \<open>Basic facts\<close>

lemma list_remove_member:
  "x \<in> set xs \<Longrightarrow> list_remove xs x = Inr (remove1 x xs)"
  by (induction xs) auto

lemma list_remove_absent:
  "x \<notin> set xs \<Longrightarrow> list_remove xs x = Inl ValueError"
  by (induction xs) auto

lemma list_remove_Inr_iff:
  "(list_remove xs x = Inr ys) = (x \<in> set xs \<and> ys = remove1 x xs)"
  by (cases "x \<in> set xs") (auto simp: list_remove_member list_remove_absent)

lemma list_remove_Inl_iff:
  "(list_remove xs x = Inl e) = (x \<notin> set xs \<and> e = ValueError)"
  by (cases "x \<in> set xs") (auto simp: list_remove_member list_remove_absent)

lemma random_choice_member:
  "random_choice r xs = Inr d \<Longrightarrow> d \<in> set xs"
  by (auto simp: random_choice_def split: if_splits)

lemma random_choice_total:
  "xs \<noteq> [] \<Longrightarrow> \<exists>d. random_choice r xs = Inr d"
  by (simp add: random_choice_def)

lemma get_random_destination_Inr:
  assumes "get_random_destination s r = Inr (d, s')"
  shows "\<exists>av. available_destinations s = Inr av \<and> random_choice r av = Inr d
           \<and> s' = s\<lparr>last_destination := Some d\<rparr>"
  using assms by (auto simp: get_random_destination_def split: sum.splits)

lemma available_destinations_total:
  "last_in_catalog s \<Longrightarrow> \<exists>av. available_destinations s = Inr av"
  by (auto simp: available_destinations_def last_in_catalog_def truthy_def
        list_remove_member split: option.splits)

lemma available_destinations_subset:
  "available_destinations s = Inr av \<Longrightarrow> set av \<subseteq> set (destinations s)"
  using set_remove1_subset
  by (fastforce simp: available_destinations_def list_remove_Inr_iff split: if_splits)

lemma available_destinations_nonempty:
  assumes "available_destinations s = Inr av" and "destinations s \<noteq> []"
  shows "av \<noteq> []"
proof (cases "truthy (last_destination s) \<and> 1 < length (destinations s)")
  case True
  with assms(1) have mem: "the (last_destination s) \<in> set (destinations s)"
    and av: "av = remove1 (the (last_destination s)) (destinations s)"
    by (simp_all add: available_destinations_def list_remove_Inr_iff)
  from mem have "length av = length (destinations s) - 1"
    unfolding av by (simp add: length_remove1)
  with True show ?thesis by auto
next
  case False
  with assms show ?thesis by (auto simp: available_destinations_def)
qed

lemma get_random_destination_total:
  assumes "last_in_catalog s" and "destinations s \<noteq> []"
  shows "\<exists>d. get_random_destination s r = Inr (d, s\<lparr>last_destination := Some d\<rparr>)
           \<and> d \<in> set (destinations s)"
proof -
  from assms(1) obtain av where av: "available_destinations s = Inr av"
    using available_destinations_total by blast
  with assms(2) have "av \<noteq> []" using available_destinations_nonempty by blast
  then obtain d where d: "random_choice r av = Inr d"
    using random_choice_total by blast
  then have "d \<in> set av" by (rule random_choice_member)
  with av have "d \<in> set (destinations s)"
    using available_destinations_subset by blast
  with av d show ?thesis by (simp add: get_random_destination_def)
qed

lemma get_random_destination_result:
  assumes "get_random_destination s r = Inr (d, s')"
  shows "s' = s\<lparr>last_destination := Some d\<rparr>" and "d \<in> set (destinations s)"
proof -
  from assms obtain av where av: "available_destinations s = Inr av"
    and d: "random_choice r av = Inr d" and s': "s' = s\<lparr>last_destination := Some d\<rparr>"
    using get_random_destination_Inr by blast
  show "s' = s\<lparr>last_destination := Some d\<rparr>" by (fact s')
  from d have "d \<in> set av" by (rule random_choice_member)
  with av show "d \<in> set (destinations s)"
    using available_destinations_subset by blast
qed

lemma last_in_catalog_step:
  "get_random_destination s r = Inr (d, s') \<Longrightarrow> last_in_catalog s'"
  using get_random_destination_result[of s r d s'] by (simp add: last_in_catalog_def)

lemma run_calls_result:
  assumes "run_calls s0 rs = Inr (ds, s)"
  shows "length ds = length rs \<and> set ds \<subseteq> set (destinations s0)
           \<and> destinations s = destinations s0
           \<and> last_destination s = (if rs = [] then last_destination s0 else Some (last ds))"
  using assms
proof (induction rs arbitrary: s0 ds)
  case Nil
  then show ?case by simp
next
  case (Cons r rs)
  from Cons.prems obtain d s1 ds' where
    step: "get_random_destination s0 r = Inr (d, s1)" and
    rest: "run_calls s1 rs = Inr (ds', s)" and ds: "ds = d # ds'"
    by (auto split: sum.splits prod.splits)
  from step have s1: "s1 = s0\<lparr>last_destination := Some d\<rparr>" and d: "d \<in> set (destinations s0)"
    by (rule get_random_destination_result)+
  from Cons.IH[OF rest] s1 d ds show ?case by (cases rs) auto
qed

lemma run_calls_total:
  assumes "last_in_catalog s0" and "destinations s0 \<noteq> []"
  shows "\<exists>ds s. run_calls s0 rs = Inr (ds, s)"
  using assms
proof (induction rs arbitrary: s0)
  case Nil
  then show ?case by simp
next
  case (Cons r rs)
  from get_random_destination_total[OF Cons.prems] obtain d where
    step: "get_random_destination s0 r = Inr (d, s0\<lparr>last_destination := Some d\<rparr>)" by blast
  have "last_in_catalog (s0\<lparr>last_destination := Some d\<rparr>)"
    using step by (rule last_in_catalog_step)
  moreover have "destinations (s0\<lparr>last_destination := Some d\<rparr>) \<noteq> []"
    using Cons.prems(2) by simp
  ultimately obtain ds s where "run_calls (s0\<lparr>last_destination := Some d\<rparr>) rs = Inr (ds, s)"
    using Cons.IH by blast
  with step show ?case by simp
qed

lemma run_calls_last_in_catalog:
  "last_in_catalog s0 \<Longrightarrow> run_calls s0 rs = Inr (ds, s) \<Longrightarrow> last_in_catalog s"
proof (induction rs arbitrary: s0 ds)
  case Nil
  then show ?case by simp
next
  case (Cons r rs)
  from Cons.prems(2) obtain d s1 ds' where
    step: "get_random_destination s0 r = Inr (d, s1)" and
    rest: "run_calls s1 rs = Inr (ds', s)"
    by (auto split: sum.splits prod.splits)
  from step have "last_in_catalog s1" by (rule last_in_catalog_step)
  then show ?case using rest by (rule Cons.IH)
qed

lemma init_facts:
  "last_destination DestinationsPlugin_init = None"
  "destinations DestinationsPlugin_init \<noteq> []"
  "last_in_catalog DestinationsPlugin_init"
  "distinct (destinations DestinationsPlugin_init)"
  "[] \<notin> set (destinations DestinationsPlugin_init)"
  "length (destinations DestinationsPlugin_init) = 10"
  by (simp_all add: DestinationsPlugin_init_def last_in_catalog_def)

lemma available_destinations_eq:
  assumes "last_in_catalog s"
  shows "available_destinations s =
           Inr (if truthy (last_destination s) \<and> 1 < length (destinations s)
                then remove1 (the (last_destination s)) (destinations s)
                else destinations s)"
  using assms
  by (auto simp: available_destinations_def last_in_catalog_def truthy_def
        list_remove_member split: option.splits)

lemma get_random_destination_Inl_iff:
  "(get_random_destination s r = Inl e) =
     (e = IndexError \<and> destinations s = []
      \<or> e = ValueError \<and> truthy (last_destination s) \<and> 1 < length (destinations s)
          \<and> the (last_destination s) \<notin> set (destinations s))"
proof (cases "truthy (last_destination s) \<and> 1 < length (destinations s)")
  case False
  then have "available_destinations s = Inr (destinations s)"
    by (auto simp: available_destinations_def)
  with False show ?thesis
    by (auto simp: get_random_destination_def random_choice_def)
next
  case True
  show ?thesis
  proof (cases "the (last_destination s) \<in> set (destinations s)")
    case False
    with True have "available_destinations s = Inl ValueError"
      by (simp add: available_destinations_def list_remove_absent)
    with True False show ?thesis
      by (auto simp: get_random_destination_def)
  next
    case mem: True
    with True have av: "available_destinations s =
        Inr (remove1 (the (last_destination s)) (destinations s))"
      by (simp add: available_destinations_def list_remove_member)
    from True have "destinations s \<noteq> []" by auto
    with av have "remove1 (the (last_destination s)) (destinations s) \<noteq> []"
      by (rule available_destinations_nonempty)
    with av True mem show ?thesis
      by (auto simp: get_random_destination_def random_choice_def)
  qed
qed

lemma get_random_destination_heap_cases:
  "\<exists>ys. get_random_destination_heap w self =
     (case get_random_destination (plugin_of (list_objects w) self)
             (outputs (rng w) (position (rng w))) of
        Inl e \<Rightarrow> (Inl e, w\<lparr>list_objects := list_objects w @ [ys]\<rparr>, self)
      | Inr (d, s') \<Rightarrow>
          (Inr d,
           \<lparr>list_objects = list_objects w @ [ys],
            rng = (rng w)\<lparr>position := Suc (position (rng w))\<rparr>\<rparr>,
           self\<lparr>last_destination_attr := Some d\<rparr>))"
proof -
  let ?xs = "list_objects w ! destinations_ref self"
  let ?l = "the (last_destination_attr self)"
  let ?guard = "truthy (last_destination_attr self) \<and> 1 < length ?xs"
  note defs = get_random_destination_heap_def list_copy_def list_remove_inplace_def
    random_choice_rng_def get_random_destination_def available_destinations_def
    plugin_of_def random_choice_def
  consider (raises) e where "?guard" and "list_remove ?xs ?l = Inl e"
    | (removed) av where "?guard" and "list_remove ?xs ?l = Inr av"
    | (full) "\<not> ?guard"
    by (cases "list_remove ?xs ?l") auto
  then show ?thesis
  proof cases
    case (raises e)
    then show ?thesis
      by (intro exI[of _ ?xs]) (simp add: defs)
  next
    case (removed av)
    then have "av = remove1 ?l ?xs" and "?l \<in> set ?xs"
      by (simp_all add: list_remove_Inr_iff)
    with removed(1) have "av \<noteq> []"
      by (auto simp: length_remove1 dest!: arg_cong[of _ "[]" length])
    with removed show ?thesis
      by (intro exI[of _ av]) (simp add: defs)
  next
    case full
    then show ?thesis
      by (intro exI[of _ ?xs]) (auto simp: defs)
  qed
qed

section \<open>Evaluation on concrete inputs\<close>

lemmas eval_defs = DestinationsPlugin_init_def get_random_destination_def
  available_destinations_def truthy_def random_choice_def

lemma run_calls_example:
  "run_calls DestinationsPlugin_init [3, 7, 13] =
     Inr ([''Tokyo, Japan'', ''Rio de Janeiro, Brazil'', ''Sydney, Australia''],
          DestinationsPlugin_init\<lparr>last_destination := Some ''Sydney, Australia''\<rparr>)"
  by (simp add: eval_defs)

section \<open>The claims\<close>

text \<open>
  Claim C2. Starting from a freshly constructed plugin, every sequence of calls returns
  (one destination per call), and every destination returned is an entry of the catalog
  the constructor built.
\<close>

theorem picks_are_catalog_members:
  "\<exists>ds s. run_calls DestinationsPlugin_init rs = Inr (ds, s) \<and> length ds = length rs
     \<and> set ds \<subseteq> set (destinations DestinationsPlugin_init)"
proof -
  obtain ds s where run: "run_calls DestinationsPlugin_init rs = Inr (ds, s)"
    using run_calls_total[OF init_facts(3) init_facts(2)] by blast
  with run_calls_result[OF run] show ?thesis by blast
qed

theorem picks_are_catalog_members_witness:
  "run_calls DestinationsPlugin_init [3, 7, 13] =
     Inr ([''Tokyo, Japan'', ''Rio de Janeiro, Brazil'', ''Sydney, Australia''],
          DestinationsPlugin_init\<lparr>last_destination := Some ''Sydney, Australia''\<rparr>)
   \<and> set [''Tokyo, Japan'', ''Rio de Janeiro, Brazil'', ''Sydney, Australia'']
       \<subseteq> set (destinations DestinationsPlugin_init)"
proof -
  have sub: "set [''Tokyo, Japan'', ''Rio de Janeiro, Brazil'', ''Sydney, Australia'']
       \<subseteq> set (destinations DestinationsPlugin_init)"
    by (simp add: DestinationsPlugin_init_def)
  from picks_are_catalog_members[of "[3, 7, 13]"] run_calls_example sub
  show ?thesis by simp
qed

text \<open>
  Claim C5. \<open>last_destination\<close> is \<open>None\<close> right after construction; after any
  non-empty sequence of calls on the constructed plugin it holds the destination that
  the latest call returned; and a call changes no field of the object but this one.
\<close>

theorem last_destination_is_last_result:
  "last_destination DestinationsPlugin_init = None
   \<and> (\<exists>ds s. run_calls DestinationsPlugin_init rs = Inr (ds, s)
         \<and> last_destination s = (if rs = [] then None else Some (last ds)))
   \<and> (\<forall>s r d s'. get_random_destination s r = Inr (d, s')
         \<longrightarrow> s' = s\<lparr>last_destination := Some d\<rparr>)"
proof -
  obtain ds s where run: "run_calls DestinationsPlugin_init rs = Inr (ds, s)"
    using run_calls_total[OF init_facts(3) init_facts(2)] by blast
  from run_calls_result[OF run] have
    "last_destination s = (if rs = [] then None else Some (last ds))"
    by (simp add: init_facts(1))
  with run show ?thesis
    using get_random_destination_result(1) by (auto simp: init_facts(1))
qed

theorem last_destination_is_last_result_witness:
  "last_destination DestinationsPlugin_init = None
   \<and> run_calls DestinationsPlugin_init [2, 9] =
       Inr ([''Berlin, Germany'', ''Barcelona, Spain''],
            DestinationsPlugin_init\<lparr>last_destination := Some ''Barcelona, Spain''\<rparr>)
   \<and> get_random_destination DestinationsPlugin_init 2 =
       Inr (''Berlin, Germany'',
            DestinationsPlugin_init\<lparr>last_destination := Some ''Berlin, Germany''\<rparr>)"
  using last_destination_is_last_result[of "[2, 9]"]
  by (simp add: eval_defs)

text \<open>
  Claim C6. With a non-empty catalog and \<open>last_destination\<close> unset at the start, no
  sequence of calls raises; in the state reached the removal succeeds, the list handed
  to \<^verbatim>\<open>random.choice\<close> is non-empty, and the next call returns as well.
\<close>

theorem pick_total_on_reachable_states:
  assumes "destinations s0 \<noteq> []" and "last_destination s0 = None"
  shows "\<exists>ds s. run_calls s0 rs = Inr (ds, s)
           \<and> (\<exists>av. available_destinations s = Inr av \<and> av \<noteq> [])
           \<and> (\<exists>d s'. get_random_destination s r = Inr (d, s'))"
proof -
  from assms(2) have inv0: "last_in_catalog s0" by (simp add: last_in_catalog_def)
  then obtain ds s where run: "run_calls s0 rs = Inr (ds, s)"
    using run_calls_total assms(1) by blast
  from inv0 run have inv: "last_in_catalog s" by (rule run_calls_last_in_catalog)
  from run_calls_result[OF run] assms(1) have ne: "destinations s \<noteq> []" by simp
  from inv obtain av where av: "available_destinations s = Inr av"
    using available_destinations_total by blast
  from av ne have "av \<noteq> []" by (rule available_destinations_nonempty)
  moreover from get_random_destination_total[OF inv ne]
  have "\<exists>d s'. get_random_destination s r = Inr (d, s')" by blast
  ultimately show ?thesis using run av by blast
qed

theorem pick_total_on_reachable_states_witness:
  "destinations DestinationsPlugin_init \<noteq> []
   \<and> last_destination DestinationsPlugin_init = None
   \<and> run_calls DestinationsPlugin_init [0, 0] =
       Inr ([''Barcelona, Spain'', ''Paris, France''],
            DestinationsPlugin_init\<lparr>last_destination := Some ''Paris, France''\<rparr>)
   \<and> available_destinations
         (DestinationsPlugin_init\<lparr>last_destination := Some ''Paris, France''\<rparr>) =
       Inr [''Barcelona, Spain'', ''Berlin, Germany'', ''Tokyo, Japan'',
          ''Sydney, Australia'', ''New York, USA'', ''Cairo, Egypt'',
          ''Cape Town, South Africa'', ''Rio de Janeiro, Brazil'', ''Bali, Indonesia'']
   \<and> get_random_destination
         (DestinationsPlugin_init\<lparr>last_destination := Some ''Paris, France''\<rparr>) 0 =
       Inr (''Barcelona, Spain'',
            DestinationsPlugin_init\<lparr>last_destination := Some ''Barcelona, Spain''\<rparr>)"
  using pick_total_on_reachable_states[OF init_facts(2) init_facts(1), of "[0, 0]" 0]
  by (simp add: eval_defs)

text \<open>
  Claim C9. In every state reached from a state with \<open>last_destination\<close> unset by any
  number of calls, \<open>last_destination\<close> is \<open>None\<close> or an entry of the catalog (which
  is still the initial one), and therefore the removal step of the next call succeeds.
\<close>

theorem last_destination_None_or_in_catalog:
  assumes "last_destination s0 = None" and "run_calls s0 rs = Inr (ds, s)"
  shows "(last_destination s = None
            \<or> (\<exists>l. last_destination s = Some l \<and> l \<in> set (destinations s)))
         \<and> destinations s = destinations s0
         \<and> (\<exists>av. available_destinations s = Inr av)"
proof -
  from assms(1) have "last_in_catalog s0" by (simp add: last_in_catalog_def)
  then have inv: "last_in_catalog s" using assms(2) by (rule run_calls_last_in_catalog)
  then have "last_destination s = None
      \<or> (\<exists>l. last_destination s = Some l \<and> l \<in> set (destinations s))"
    by (cases "last_destination s") (simp_all add: last_in_catalog_def)
  moreover have "destinations s = destinations s0"
    using run_calls_result[OF assms(2)] by simp
  moreover have "\<exists>av. available_destinations s = Inr av"
    using inv by (rule available_destinations_total)
  ultimately show ?thesis by blast
qed

theorem last_destination_None_or_in_catalog_witness:
  "last_destination DestinationsPlugin_init = None
   \<and> run_calls DestinationsPlugin_init [14, 8] =
       Inr ([''Sydney, Australia'', ''Bali, Indonesia''],
            DestinationsPlugin_init\<lparr>last_destination := Some ''Bali, Indonesia''\<rparr>)
   \<and> ''Bali, Indonesia'' \<in> set (destinations DestinationsPlugin_init)
   \<and> available_destinations
         (DestinationsPlugin_init\<lparr>last_destination := Some ''Bali, Indonesia''\<rparr>) =
       Inr [''Barcelona, Spain'', ''Paris, France'', ''Berlin, Germany'', ''Tokyo, Japan'',
          ''Sydney, Australia'', ''New York, USA'', ''Cairo, Egypt'',
          ''Cape Town, South Africa'', ''Rio de Janeiro, Brazil'']"
proof -
  have run: "run_calls DestinationsPlugin_init [14, 8] =
       Inr ([''Sydney, Australia'', ''Bali, Indonesia''],
            DestinationsPlugin_init\<lparr>last_destination := Some ''Bali, Indonesia''\<rparr>)"
    by (simp add: eval_defs)
  from last_destination_None_or_in_catalog[OF init_facts(1) run] run
  show ?thesis by (simp add: eval_defs)
qed


text \<open>
  Where the defect does not strike. \<^verbatim>\<open>remove\<close> deletes one occurrence only, so a
  destination that occurs twice in the catalog can also be returned twice in a row.
\<close>

lemma duplicate_entry_returned_twice_in_a_row:
  "get_random_destination \<lparr>destinations = [''A'', ''A''], last_destination = None\<rparr> 0 =
       Inr (''A'', \<lparr>destinations = [''A'', ''A''], last_destination = Some ''A''\<rparr>)
   \<and> get_random_destination \<lparr>destinations = [''A'', ''A''], last_destination = Some ''A''\<rparr> 0 =
       Inr (''A'', \<lparr>destinations = [''A'', ''A''], last_destination = Some ''A''\<rparr>)"
  by (simp add: eval_defs)

text \<open>
  With at least two entries that are pairwise distinct and none of which is the empty
  string, as in the catalog the constructor builds, a call that follows a returning call
  returns as well, and never the destination just returned.
\<close>

lemma no_immediate_repeat:
  assumes "2 \<le> length (destinations s)"
    and "distinct (destinations s)"
    and "[] \<notin> set (destinations s)"
    and "get_random_destination s r1 = Inr (d1, s1)"
  shows "\<exists>d2 s2. get_random_destination s1 r2 = Inr (d2, s2) \<and> d2 \<noteq> d1"
proof -
  from assms(4) have s1: "s1 = s\<lparr>last_destination := Some d1\<rparr>"
    and d1: "d1 \<in> set (destinations s)"
    by (rule get_random_destination_result)+
  from d1 assms(3) have ne: "d1 \<noteq> []" by auto
  have inv: "last_in_catalog s1" using assms(4) by (rule last_in_catalog_step)
  from assms(1) have cat: "destinations s1 \<noteq> []" by (auto simp: s1)
  from ne assms(1) have av: "available_destinations s1 = Inr (remove1 d1 (destinations s))"
    using available_destinations_eq[OF inv] by (simp add: s1 truthy_def)
  from get_random_destination_total[OF inv cat, of r2] obtain d2 where
    call: "get_random_destination s1 r2 = Inr (d2, s1\<lparr>last_destination := Some d2\<rparr>)"
    by blast
  from get_random_destination_Inr[OF call] av have "d2 \<in> set (remove1 d1 (destinations s))"
    using random_choice_member by auto
  with assms(2) have "d2 \<noteq> d1" by auto
  with call show ?thesis by blast
qed

lemma no_immediate_repeat_example:
  "2 \<le> length (destinations DestinationsPlugin_init)
   \<and> distinct (destinations DestinationsPlugin_init)
   \<and> [] \<notin> set (destinations DestinationsPlugin_init)
   \<and> get_random_destination DestinationsPlugin_init 11 =
       Inr (''Paris, France'',
            DestinationsPlugin_init\<lparr>last_destination := Some ''Paris, France''\<rparr>)
   \<and> get_random_destination
         (DestinationsPlugin_init\<lparr>last_destination := Some ''Paris, France''\<rparr>) 1 =
       Inr (''Berlin, Germany'',
            DestinationsPlugin_init\<lparr>last_destination := Some ''Berlin, Germany''\<rparr>)
   \<and> ''Berlin, Germany'' \<noteq> ''Paris, France''"
proof -
  have len: "2 \<le> length (destinations DestinationsPlugin_init)"
    by (simp add: init_facts(6))
  have call: "get_random_destination DestinationsPlugin_init 11 =
       Inr (''Paris, France'',
            DestinationsPlugin_init\<lparr>last_destination := Some ''Paris, France''\<rparr>)"
    by (simp add: eval_defs)
  from no_immediate_repeat[OF len init_facts(4) init_facts(5) call, of 1] len call
  show ?thesis by (simp add: eval_defs)
qed

text \<open>
  Claim C3 as stated does not hold: the constructor takes no catalog and checks nothing,
  and the code has no configuration error. An object whose catalog is empty fails when
  it is called, with \<^verbatim>\<open>IndexError\<close>; and \<^verbatim>\<open>ValueError\<close> is a second
  failure kind of the method.
\<close>

theorem failure_kinds_counterexample:
  "get_random_destination \<lparr>destinations = [], last_destination = None\<rparr> 0 = Inl IndexError
   \<and> get_random_destination
         \<lparr>destinations = [''A'', ''B''], last_destination = Some ''Z''\<rparr> 0 = Inl ValueError"
  by (simp add: eval_defs)

text \<open>
  Claim C3, amended. Construction cannot fail: it yields the fixed catalog of ten entries with
  \<open>last_destination\<close> unset, and no sequence of calls on the constructed plugin raises.
  The method has exactly two failure kinds: \<^verbatim>\<open>IndexError\<close>, exactly when the
  catalog is empty, and \<^verbatim>\<open>ValueError\<close>, exactly when \<open>last_destination\<close> is a
  non-empty string that is not an entry of a catalog of more than one entry.
\<close>

theorem failures_of_the_plugin:
  "destinations DestinationsPlugin_init \<noteq> []
   \<and> length (destinations DestinationsPlugin_init) = 10
   \<and> last_destination DestinationsPlugin_init = None
   \<and> (\<exists>ds s'. run_calls DestinationsPlugin_init rs = Inr (ds, s'))
   \<and> (get_random_destination s r = Inl e) =
       (e = IndexError \<and> destinations s = []
        \<or> e = ValueError \<and> truthy (last_destination s) \<and> 1 < length (destinations s)
            \<and> the (last_destination s) \<notin> set (destinations s))"
  using run_calls_total[OF init_facts(3) init_facts(2), of rs]
    get_random_destination_Inl_iff[of s r e]
  by (simp add: init_facts(1) init_facts(2) init_facts(6))

theorem failures_of_the_plugin_witness:
  "run_calls DestinationsPlugin_init [5] =
     Inr ([''New York, USA''],
          DestinationsPlugin_init\<lparr>last_destination := Some ''New York, USA''\<rparr>)
   \<and> get_random_destination \<lparr>destinations = [], last_destination = Some ''A''\<rparr> 4
       = Inl IndexError
   \<and> destinations \<lparr>destinations = [], last_destination = Some ''A''\<rparr> = []"
  using failures_of_the_plugin
    [of "[5]" "\<lparr>destinations = [], last_destination = Some ''A''\<rparr>" 4 IndexError]
  by (simp add: eval_defs)


text \<open>
  Where the defect does not strike: in a state with a non-empty, duplicate-free catalog
  whose \<open>last_destination\<close> is unset or a non-empty entry of the catalog, the list handed
  to \<^verbatim>\<open>random.choice\<close> holds exactly the eligible set of the specification, and the
  call selects an element of it, stores it in \<open>last_destination\<close> and returns it.
\<close>

lemma pick_algorithm_unless_empty_string:
  assumes "last_in_catalog s" and "destinations s \<noteq> []" and "distinct (destinations s)"
    and "last_destination s \<noteq> Some ''''"
  shows "\<exists>av d. available_destinations s = Inr av
           \<and> set av = eligible_set_spec s
           \<and> random_choice r av = Inr d \<and> d \<in> eligible_set_spec s
           \<and> get_random_destination s r = Inr (d, s\<lparr>last_destination := Some d\<rparr>)"
proof -
  define av where "av = (if truthy (last_destination s) \<and> 1 < length (destinations s)
      then remove1 (the (last_destination s)) (destinations s) else destinations s)"
  have av: "available_destinations s = Inr av"
    unfolding av_def using assms(1) by (rule available_destinations_eq)
  have set_av: "set av = (if truthy (last_destination s) \<and> 1 < length (destinations s)
      then set (destinations s) - {the (last_destination s)} else set (destinations s))"
    unfolding av_def using assms(3) by simp
  from assms(4) have "truthy (last_destination s) = (last_destination s \<noteq> None)"
    by (cases "last_destination s") (simp_all add: truthy_def)
  then have spec: "set av = eligible_set_spec s"
    unfolding set_av eligible_set_spec_def by simp
  from av assms(2) have "av \<noteq> []" by (rule available_destinations_nonempty)
  then obtain d where d: "random_choice r av = Inr d"
    using random_choice_total by blast
  then have "d \<in> set av" by (rule random_choice_member)
  then have mem: "d \<in> eligible_set_spec s" unfolding spec .
  from av d have call: "get_random_destination s r = Inr (d, s\<lparr>last_destination := Some d\<rparr>)"
    by (simp add: get_random_destination_def)
  show ?thesis
    apply (rule exI[of _ av])
    apply (rule exI[of _ d])
    apply (intro conjI)
        apply (rule av)
       apply (rule spec)
      apply (rule d)
     apply (rule mem)
    apply (rule call)
    done
qed

text \<open>
  Claim C7 as stated does not hold: besides \<open>last_destination\<close>, a returning call
  changes the state of the generator of the module \<^verbatim>\<open>random\<close>, which is shared
  with every other caller of that module. On the constructed plugin, with the generator
  at position 0, the call leaves it at position 1.
\<close>

theorem generator_is_advanced_counterexample:
  "get_random_destination_heap
       \<lparr>list_objects = [destinations DestinationsPlugin_init],
        rng = \<lparr>outputs = Suc, position = 0\<rparr>\<rparr>
       \<lparr>destinations_ref = 0, last_destination_attr = None\<rparr>
     = (Inr ''Paris, France'',
        \<lparr>list_objects = [destinations DestinationsPlugin_init, destinations DestinationsPlugin_init],
         rng = \<lparr>outputs = Suc, position = 1\<rparr>\<rparr>,
        \<lparr>destinations_ref = 0, last_destination_attr = Some ''Paris, France''\<rparr>)
   \<and> \<lparr>outputs = Suc, position = 1\<rparr> \<noteq> \<lparr>outputs = Suc, position = 0\<rparr>"
  by (simp add: get_random_destination_heap_def list_copy_def truthy_def
        random_choice_rng_def random_choice_def DestinationsPlugin_init_def)

text \<open>
  Claim C7, amended. Every call, returning or raising, leaves the reference
  \<open>destinations\<close> of the object, the list it points to and every other list that
  existed before the call as they were: same elements in the same order (the removal
  works on a newly allocated copy). A returning call changes the attribute
  \<open>last_destination\<close> and moves the generator of the module \<^verbatim>\<open>random\<close> on by
  the one draw of \<^verbatim>\<open>random.choice\<close>, and nothing else; a raising call changes
  neither the object nor the generator. On values the call is the method
  \<open>get_random_destination\<close> at the generator's current output.
\<close>

theorem only_last_destination_and_generator_change:
  assumes "destinations_ref self < length (list_objects w)"
    and "get_random_destination_heap w self = (res, w', self')"
  shows "destinations_ref self' = destinations_ref self
         \<and> take (length (list_objects w)) (list_objects w') = list_objects w
         \<and> list_objects w' ! destinations_ref self' = list_objects w ! destinations_ref self
         \<and> (case res of
               Inl e \<Rightarrow>
                 self' = self \<and> rng w' = rng w
                 \<and> get_random_destination (plugin_of (list_objects w) self)
                       (outputs (rng w) (position (rng w))) = Inl e
             | Inr d \<Rightarrow>
                 self' = self\<lparr>last_destination_attr := Some d\<rparr>
                 \<and> rng w' = (rng w)\<lparr>position := Suc (position (rng w))\<rparr>
                 \<and> get_random_destination (plugin_of (list_objects w) self)
                       (outputs (rng w) (position (rng w)))
                     = Inr (d, plugin_of (list_objects w') self'))"
proof -
  let ?pure = "get_random_destination (plugin_of (list_objects w) self)
      (outputs (rng w) (position (rng w)))"
  from get_random_destination_heap_cases[of w self] obtain ys where
    heap: "get_random_destination_heap w self =
       (case ?pure of
          Inl e \<Rightarrow> (Inl e, w\<lparr>list_objects := list_objects w @ [ys]\<rparr>, self)
        | Inr (d, s') \<Rightarrow>
            (Inr d,
             \<lparr>list_objects = list_objects w @ [ys],
              rng = (rng w)\<lparr>position := Suc (position (rng w))\<rparr>\<rparr>,
             self\<lparr>last_destination_attr := Some d\<rparr>))"
    by blast
  show ?thesis
  proof (cases ?pure)
    case (Inl e)
    with heap assms(2) have "res = Inl e" and "w' = w\<lparr>list_objects := list_objects w @ [ys]\<rparr>"
      and "self' = self"
      by simp_all
    with Inl assms(1) show ?thesis by (simp add: nth_append)
  next
    case (Inr p)
    obtain d s' where p: "p = (d, s')" by (cases p)
    from Inr p have s': "s' = (plugin_of (list_objects w) self)\<lparr>last_destination := Some d\<rparr>"
      using get_random_destination_result(1) by blast
    from heap assms(2) Inr p have "res = Inr d"
      and "w' = \<lparr>list_objects = list_objects w @ [ys],
                 rng = (rng w)\<lparr>position := Suc (position (rng w))\<rparr>\<rparr>"
      and "self' = self\<lparr>last_destination_attr := Some d\<rparr>"
      by simp_all
    with Inr p s' assms(1) show ?thesis by (simp add: nth_append plugin_of_def)
  qed
qed

theorem only_last_destination_and_generator_change_witness:
  "destinations_ref \<lparr>destinations_ref = 0, last_destination_attr = Some ''Paris, France''\<rparr>
     < length (list_objects \<lparr>list_objects = [destinations DestinationsPlugin_init],
                       rng = \<lparr>outputs = id, position = 4\<rparr>\<rparr>)
   \<and> get_random_destination_heap
         \<lparr>list_objects = [destinations DestinationsPlugin_init],
          rng = \<lparr>outputs = id, position = 4\<rparr>\<rparr>
         \<lparr>destinations_ref = 0, last_destination_attr = Some ''Paris, France''\<rparr>
       = (Inr ''New York, USA'',
          \<lparr>list_objects = [destinations DestinationsPlugin_init,
               [''Barcelona, Spain'', ''Berlin, Germany'', ''Tokyo, Japan'',
                ''Sydney, Australia'', ''New York, USA'', ''Cairo, Egypt'',
                ''Cape Town, South Africa'', ''Rio de Janeiro, Brazil'', ''Bali, Indonesia'']],
           rng = \<lparr>outputs = id, position = 5\<rparr>\<rparr>,
          \<lparr>destinations_ref = 0, last_destination_attr = Some ''New York, USA''\<rparr>)
   \<and> get_random_destination
         (DestinationsPlugin_init\<lparr>last_destination := Some ''Paris, France''\<rparr>) 4
       = Inr (''New York, USA'',
              DestinationsPlugin_init\<lparr>last_destination := Some ''New York, USA''\<rparr>)"
proof -
  let ?w = "\<lparr>list_objects = [destinations DestinationsPlugin_init],
             rng = \<lparr>outputs = id, position = 4\<rparr>\<rparr>"
  let ?self = "\<lparr>destinations_ref = 0, last_destination_attr = Some ''Paris, France''\<rparr>"
  have wf: "destinations_ref ?self < length (list_objects ?w)"
    by simp
  have call: "get_random_destination_heap ?w ?self
       = (Inr ''New York, USA'',
          \<lparr>list_objects = [destinations DestinationsPlugin_init,
               [''Barcelona, Spain'', ''Berlin, Germany'', ''Tokyo, Japan'',
                ''Sydney, Australia'', ''New York, USA'', ''Cairo, Egypt'',
                ''Cape Town, South Africa'', ''Rio de Janeiro, Brazil'', ''Bali, Indonesia'']],
           rng = \<lparr>outputs = id, position = 5\<rparr>\<rparr>,
          \<lparr>destinations_ref = 0, last_destination_attr = Some ''New York, USA''\<rparr>)"
    by (simp add: get_random_destination_heap_def list_copy_def list_remove_inplace_def
          truthy_def random_choice_rng_def random_choice_def DestinationsPlugin_init_def)
  have pure: "get_random_destination
         (DestinationsPlugin_init\<lparr>last_destination := Some ''Paris, France''\<rparr>) 4
       = Inr (''New York, USA'',
              DestinationsPlugin_init\<lparr>last_destination := Some ''New York, USA''\<rparr>)"
    by (simp add: eval_defs)
  from only_last_destination_and_generator_change[OF wf call] wf call pure
  show ?thesis by simp
qed



text \<open>
  Claim C10. When \<open>last_destination\<close> is the empty string and the catalog has more
  than one entry, nothing is removed: the list handed to \<^verbatim>\<open>random.choice\<close> is the
  whole catalog, and if the empty string is an entry, some output of the generator makes
  the call return it again, leaving the object as it was.
\<close>

theorem empty_string_is_not_excluded:
  assumes "last_destination s = Some ''''" and "1 < length (destinations s)"
  shows "available_destinations s = Inr (destinations s)
         \<and> ('''' \<in> set (destinations s)
              \<longrightarrow> (\<exists>r. get_random_destination s r = Inr ('''', s)))"
proof -
  from assms(1) have av: "available_destinations s = Inr (destinations s)"
    by (simp add: available_destinations_def truthy_def)
  have "\<exists>r. get_random_destination s r = Inr ('''', s)" if "'''' \<in> set (destinations s)"
  proof -
    from that obtain i where i: "i < length (destinations s)" "destinations s ! i = ''''"
      by (auto simp: in_set_conv_nth)
    from assms(1) have "s\<lparr>last_destination := Some ''''\<rparr> = s" by simp
    with i av have "get_random_destination s i = Inr ('''', s)"
      by (auto simp: get_random_destination_def random_choice_def)
    then show ?thesis ..
  qed
  with av show ?thesis by blast
qed

theorem empty_string_is_not_excluded_witness:
  "last_destination \<lparr>destinations = [''A'', '''', ''C''], last_destination = Some ''''\<rparr>
     = Some ''''
   \<and> 1 < length (destinations
         \<lparr>destinations = [''A'', '''', ''C''], last_destination = Some ''''\<rparr>)
   \<and> available_destinations
         \<lparr>destinations = [''A'', '''', ''C''], last_destination = Some ''''\<rparr>
       = Inr [''A'', '''', ''C'']
   \<and> get_random_destination
         \<lparr>destinations = [''A'', '''', ''C''], last_destination = Some ''''\<rparr> 1
       = Inr ('''', \<lparr>destinations = [''A'', '''', ''C''], last_destination = Some ''''\<rparr>)"
  using empty_string_is_not_excluded
    [of "\<lparr>destinations = [''A'', '''', ''C''], last_destination = Some ''''\<rparr>"]
  by (simp add: eval_defs)

end
